theory Spec2Isabelle
  imports Main "HOL-Library.Word"
begin

section \<open>The 64-bit signed field codec (src/protocol/fields/long.ts)\<close>

text \<open>
  A JavaScript \<^verbatim>\<open>bigint\<close> is an unbounded integer, hence \<^typ>\<open>int\<close>. The element of a
  \<^verbatim>\<open>Uint8Array\<close> is a byte, hence \<^typ>\<open>8 word\<close>.
\<close>

type_synonym byte = "8 word"

datatype js_error = TypeError | RangeError | StreamEndedError

definition MAX_LONG :: int where
  "MAX_LONG = 9223372036854775807"

definition MIN_LONG :: int where
  "MIN_LONG = - 9223372036854775808"

definition long_validate :: "int \<Rightarrow> bool" where
  "long_validate v = (v \<ge> MIN_LONG \<and> v \<le> MAX_LONG)"

subsection \<open>The platform objects the codec touches\<close>

text \<open>
  \<^verbatim>\<open>encode\<close> allocates a typed array and wraps it in a \<^verbatim>\<open>DataView\<close>; the view and the
  array would share one buffer, so buffers live in an explicit store and objects refer to
  them by address. \<^verbatim>\<open>new Uint8Array(n)\<close> allocates a fresh zero-filled buffer of \<open>n\<close> bytes
  and returns a typed array over it.

  The \<^verbatim>\<open>DataView\<close> constructor of ECMAScript starts with
  \<^verbatim>\<open>RequireInternalSlot(buffer, [[ArrayBufferData]])\<close>: its first argument has to be an
  \<^verbatim>\<open>ArrayBuffer\<close> itself. A typed array has a \<^verbatim>\<open>[[ViewedArrayBuffer]]\<close> slot and no
  \<^verbatim>\<open>[[ArrayBufferData]]\<close> slot, so handing one to the constructor raises \<^verbatim>\<open>TypeError\<close>.
  (TypeScript's structural typing lets a \<^verbatim>\<open>Uint8Array\<close> pass where an \<^verbatim>\<open>ArrayBuffer\<close> is
  expected, so the call compiles.)
\<close>

type_synonym heap = "nat \<Rightarrow> byte list option"

datatype js_object = ArrayBuffer nat | Uint8Array nat

record data_view =
  buffer :: nat

definition empty_heap :: heap where
  "empty_heap = (\<lambda>_. None)"

definition new_Uint8Array :: "nat \<Rightarrow> nat \<Rightarrow> heap \<Rightarrow> js_object \<times> heap" where
  "new_Uint8Array addr n h = (Uint8Array addr, h(addr \<mapsto> replicate n 0))"

fun new_DataView :: "js_object \<Rightarrow> js_error + data_view" where
  "new_DataView (ArrayBuffer a) = Inr \<lparr>buffer = a\<rparr>"
| "new_DataView (Uint8Array a) = Inl TypeError"

text \<open>Big-endian bytes of a natural number, most significant byte first, and back.\<close>

fun be_bytes :: "nat \<Rightarrow> nat \<Rightarrow> byte list" where
  "be_bytes 0 x = []"
| "be_bytes (Suc n) x = be_bytes n (x div 256) @ [of_nat (x mod 256)]"

definition be_value :: "byte list \<Rightarrow> nat" where
  "be_value bs = foldl (\<lambda>acc b. acc * 256 + unat b) 0 bs"

text \<open>
  \<^verbatim>\<open>view.setBigInt64(byteOffset, value)\<close> with the default byte order (big-endian): the value
  is reduced modulo \<open>2^64\<close> (\<^verbatim>\<open>ToBigInt64\<close>) and its eight bytes overwrite the buffer at the
  offset; \<^verbatim>\<open>RangeError\<close> when the eight bytes do not fit.
\<close>

definition setBigInt64 :: "heap \<Rightarrow> data_view \<Rightarrow> nat \<Rightarrow> int \<Rightarrow> js_error + heap" where
  "setBigInt64 h view off v =
     (case h (buffer view) of
        None \<Rightarrow> Inl TypeError
      | Some bs \<Rightarrow>
          if off + 8 > length bs then Inl RangeError
          else Inr (h(buffer view \<mapsto>
                 take off bs @ be_bytes 8 (nat (v mod 2 ^ 64)) @ drop (off + 8) bs)))"

text \<open>
  \<^verbatim>\<open>view.getBigInt64(byteOffset)\<close>, big-endian, read as two's complement. The view is given
  by the bytes it addresses.
\<close>

definition getBigInt64 :: "byte list \<Rightarrow> nat \<Rightarrow> js_error + int" where
  "getBigInt64 bs off =
     (if off + 8 > length bs then Inl RangeError
      else let u = be_value (take 8 (drop off bs))
           in Inr (if u \<ge> 2 ^ 63 then int u - 2 ^ 64 else int u))"

definition contents :: "heap \<Rightarrow> js_object \<Rightarrow> byte list" where
  "contents h obj =
     (case obj of
        ArrayBuffer a \<Rightarrow> (case h a of None \<Rightarrow> [] | Some bs \<Rightarrow> bs)
      | Uint8Array a \<Rightarrow> (case h a of None \<Rightarrow> [] | Some bs \<Rightarrow> bs))"

subsection \<open>encode\<close>

text \<open>
  \<^verbatim>\<open>
  .encode((value) => {
    const bytes = new Uint8Array(8);
    const view = new DataView(bytes);
    view.setBigInt64(0, value);
    return bytes;
  })
  \<close>
  The result is the error thrown, or the bytes of the array returned.
\<close>

definition long_encode :: "int \<Rightarrow> js_error + byte list" where
  "long_encode v =
     (let (bytes, h) = new_Uint8Array 0 8 empty_heap in
      case new_DataView bytes of
        Inl e \<Rightarrow> Inl e
      | Inr view \<Rightarrow>
          (case setBigInt64 h view 0 v of
             Inl e \<Rightarrow> Inl e
           | Inr h' \<Rightarrow> Inr (contents h' bytes)))"

subsection \<open>decode\<close>

text \<open>
  Modelled from the spec: the Byte Consumer (\<^verbatim>\<open>consumer.readWithView\<close>) is a collaborator whose
  source is not among the repository's files. The spec describes it as a cursor over the bytes
  buffered so far with a read position; \<^verbatim>\<open>readWithView(n)\<close> returns the offset of the
  first of \<open>n\<close> unread bytes together with a view of the buffer and advances the position
  by \<open>n\<close>. With fewer than \<open>n\<close> unread bytes the read fails once the stream has ended and
  stays suspended otherwise.
\<close>

record consumer =
  buffered :: "byte list"
  position :: nat
  ended :: bool

datatype 'a awaited = Yields 'a | Raises js_error | Suspended

definition readWithView :: "consumer \<Rightarrow> nat \<Rightarrow> ((nat \<times> byte list) \<times> consumer) awaited" where
  "readWithView c n =
     (if position c + n \<le> length (buffered c)
      then Yields ((position c, buffered c), c\<lparr>position := position c + n\<rparr>)
      else if ended c then Raises StreamEndedError else Suspended)"

text \<open>
  \<^verbatim>\<open>
  .decode(async (consumer) => {
    const [offset, view] = await consumer.readWithView(8);
    return view.getBigInt64(offset);
  })
  \<close>
\<close>

definition long_decode :: "consumer \<Rightarrow> (int \<times> consumer) awaited" where
  "long_decode c =
     (case readWithView c 8 of
        Yields ((offset, view), c') \<Rightarrow>
          (case getBigInt64 view offset of
             Inl e \<Rightarrow> Raises e
           | Inr v \<Rightarrow> Yields (v, c'))
      | Raises e \<Rightarrow> Raises e
      | Suspended \<Rightarrow> Suspended)"

definition preloaded :: "byte list \<Rightarrow> consumer" where
  "preloaded bs = \<lparr>buffered = bs, position = 0, ended = True\<rparr>"

section \<open>Promises\<close>

text \<open>
  A promise is given by how it settles: fulfilled or rejected at a logical instant, or never.
  Instants are natural numbers; they order the settlements and carry no duration.
  A collaborator's promise is described relative to the call that created it (a delay);
  \<open>started\<close> places it on the clock of the caller.
\<close>

datatype 'e promise = Resolves nat | Rejects nat 'e | Pending

fun started :: "nat \<Rightarrow> 'e promise \<Rightarrow> 'e promise" where
  "started now (Resolves d) = Resolves (now + d)"
| "started now (Rejects d e) = Rejects (now + d) e"
| "started now Pending = Pending"

text \<open>
  \<^verbatim>\<open>Promise.all(ps)\<close>, called at \<open>now\<close>: rejected as soon as the first of \<open>ps\<close> is rejected,
  with that reason (the leftmost one among rejections of the same instant, whose reactions
  are queued in array order), whatever the others do; otherwise fulfilled once every one of
  \<open>ps\<close> is fulfilled; otherwise never settled.
\<close>

fun first_rejection :: "'e promise list \<Rightarrow> (nat \<times> 'e) option" where
  "first_rejection [] = None"
| "first_rejection (Rejects t e # ps) =
     (case first_rejection ps of
        None \<Rightarrow> Some (t, e)
      | Some (t', e') \<Rightarrow> if t' < t then Some (t', e') else Some (t, e))"
| "first_rejection (p # ps) = first_rejection ps"

fun all_fulfilled :: "nat \<Rightarrow> 'e promise list \<Rightarrow> nat option" where
  "all_fulfilled now [] = Some now"
| "all_fulfilled now (Resolves t # ps) =
     (case all_fulfilled now ps of None \<Rightarrow> None | Some t' \<Rightarrow> Some (max t t'))"
| "all_fulfilled now (p # ps) = None"

definition promise_all :: "nat \<Rightarrow> 'e promise list \<Rightarrow> 'e promise" where
  "promise_all now ps =
     (case first_rejection ps of
        Some (t, e) \<Rightarrow> Rejects t e
      | None \<Rightarrow> (case all_fulfilled now ps of Some t \<Rightarrow> Resolves t | None \<Rightarrow> Pending))"

section \<open>The event bus (src/lib/utils/EventBus.ts)\<close>

text \<open>
  \<^verbatim>\<open>private static listeners = new Map<EventId, EventListener[]>()\<close>: a JavaScript \<^verbatim>\<open>Map\<close>
  iterates in insertion order and \<^verbatim>\<open>send\<close> walks its entries, so the registry is an
  association list. The public overloads admit string literals only as event ids; on those
  the key comparison of \<^verbatim>\<open>Map\<close> and \<^verbatim>\<open>===\<close> agree, and both are HOL equality here. A
  listener is a function object compared by reference (\<^verbatim>\<open>lsFn !== listener\<close>): the type
  \<open>'l\<close> stands for these references and the parameter \<open>run\<close> below says what calling one
  does. The source's parameter \<^verbatim>\<open>id\<close> is written \<open>eid\<close>, since \<open>id\<close> is the identity
  function here.
\<close>

type_synonym ('k, 'l) registry = "('k \<times> 'l list) list"

fun map_get :: "('k \<times> 'v) list \<Rightarrow> 'k \<Rightarrow> 'v option" where
  "map_get [] k = None"
| "map_get ((k', v) # m) k = (if k' = k then Some v else map_get m k)"

fun map_set :: "'k \<Rightarrow> 'v \<Rightarrow> ('k \<times> 'v) list \<Rightarrow> ('k \<times> 'v) list" where
  "map_set k v [] = [(k, v)]"
| "map_set k v ((k', v') # m) = (if k' = k then (k, v) # m else (k', v') # map_set k v m)"

definition map_delete :: "'k \<Rightarrow> ('k \<times> 'v) list \<Rightarrow> ('k \<times> 'v) list" where
  "map_delete k m = filter (\<lambda>(k', v). k' \<noteq> k) m"

text \<open>What calling a listener does: it throws, returns nothing, or returns a promise.\<close>

datatype 'e returned = Throws 'e | ReturnsVoid | ReturnsPromise "'e promise"

text \<open>
  \<^verbatim>\<open>
  (async () => {
    const res = listener(...args);
    if (isPromise) await res;
  })()
  \<close>
  The condition tests the imported function \<^verbatim>\<open>isPromise\<close> itself, which is an object and so
  truthy: \<^verbatim>\<open>await res\<close> runs for every listener. A throw of the listener rejects the
  wrapper's promise at once.
\<close>

definition isPromise_truthy :: bool where
  "isPromise_truthy = True"

text \<open>
  \<^verbatim>\<open>await res\<close> at \<open>now\<close>, for what a listener returned. The wrapper goes on one step
  after \<open>res\<close> has settled, also when \<open>res\<close> is settled already or is no promise; so a
  wrapper whose listener threw is rejected before any wrapper that got as far as its
  \<^verbatim>\<open>await\<close>, wherever the two stand in the array.
\<close>

fun await_returned :: "nat \<Rightarrow> 'e returned \<Rightarrow> 'e promise" where
  "await_returned now (ReturnsPromise p) = started (Suc now) p"
| "await_returned now res = Resolves (Suc now)"

definition async_call :: "nat \<Rightarrow> 'e returned \<Rightarrow> 'e promise" where
  "async_call now res =
     (case res of
        Throws e \<Rightarrow> Rejects now e
      | _ \<Rightarrow> if isPromise_truthy then await_returned now res else Resolves now)"

text \<open>
  \<^verbatim>\<open>
  const foundListeners = [...EventBus.listeners.entries()]
    .filter(([evId]) => evId === id)
    .flatMap(([_, lsFn]) => lsFn)
    .map(listener => (async () => { ... })());
  await Promise.all(foundListeners);
  \<close>
  The result is the list of calls made, in order, each with the arguments passed, and the
  promise \<^verbatim>\<open>send\<close> returns.
\<close>

definition send ::
  "('l \<Rightarrow> 'a \<Rightarrow> 'e returned) \<Rightarrow> nat \<Rightarrow> ('k, 'l) registry \<Rightarrow> 'k \<Rightarrow> 'a
     \<Rightarrow> ('l \<times> 'a) list \<times> 'e promise" where
  "send run now listeners eid args =
     (let found = concat (map (\<lambda>(_, lsFn). lsFn) (filter (\<lambda>(evId, _). evId = eid) listeners));
          foundListeners = map (\<lambda>listener. async_call now (run listener args)) found
      in (map (\<lambda>listener. (listener, args)) found, promise_all now foundListeners))"

text \<open>
  \<^verbatim>\<open>
  const listeners = EventBus.listeners.get(id) ?? [];
  listeners.push(listener);
  EventBus.listeners.set(id, listeners);
  \<close>
\<close>

definition on :: "('k, 'l) registry \<Rightarrow> 'k \<Rightarrow> 'l \<Rightarrow> ('k, 'l) registry" where
  "on listeners eid listener =
     (let ls = (case map_get listeners eid of None \<Rightarrow> [] | Some ls \<Rightarrow> ls)
      in map_set eid (ls @ [listener]) listeners)"

text \<open>
  \<^verbatim>\<open>
  const listeners = EventBus.listeners.get(id);
  if (!listeners) return;
  if (!listener) return void EventBus.listeners.delete(id);
  listeners.filter(lsFn => lsFn !== listener);
  EventBus.listeners.set(id, listeners);
  \<close>
  The optional argument is \<open>None\<close> when left out. \<^verbatim>\<open>Array.prototype.filter\<close> builds a new
  array and leaves its receiver alone; the new array is dropped here.
\<close>

definition off :: "('k, 'l) registry \<Rightarrow> 'k \<Rightarrow> 'l option \<Rightarrow> ('k, 'l) registry" where
  "off listeners eid listener =
     (case map_get listeners eid of
        None \<Rightarrow> listeners
      | Some ls \<Rightarrow>
          (case listener of
             None \<Rightarrow> map_delete eid listeners
           | Some l \<Rightarrow>
               (let dropped = filter (\<lambda>lsFn. lsFn \<noteq> l) ls
                in map_set eid ls listeners)))"

text \<open>The listeners registered under an id: \<^verbatim>\<open>EventBus.listeners.get(id) ?? []\<close>.\<close>

definition registered :: "('k, 'l) registry \<Rightarrow> 'k \<Rightarrow> 'l list" where
  "registered listeners eid = (case map_get listeners eid of None \<Rightarrow> [] | Some ls \<Rightarrow> ls)"

text \<open>
  A listener's call, made at \<open>now\<close>, has run to completion by \<open>t\<close>: it returned without
  throwing and the promise it returned, if any, was fulfilled no later than \<open>t\<close>.
\<close>

fun completed_by :: "nat \<Rightarrow> nat \<Rightarrow> 'e returned \<Rightarrow> bool" where
  "completed_by now t ReturnsVoid = (now \<le> t)"
| "completed_by now t (ReturnsPromise (Resolves d)) = (now + d \<le> t)"
| "completed_by now t res = False"

section \<open>The protocol listener (src/unnamed/part_001)\<close>

text \<open>
  The module's state: \<^verbatim>\<open>const connections = new Set<Conn>()\<close> (a \<^verbatim>\<open>Set\<close> iterates in
  insertion order: a list without repetitions), \<^verbatim>\<open>let listener: Listener\<close> (undefined until
  \<^verbatim>\<open>listen\<close> runs) and \<^verbatim>\<open>let open = false\<close> (the field \<open>opened\<close>, since \<open>open\<close> is a
  reserved word here). What the module does to the outside is recorded, in order, in the
  field \<open>performed\<close>.
\<close>

datatype 'c net_action =
    ListenTcp
  | ListenerClose
  | ConnClose 'c
  | ReadOpen bool
  | ReadClosed bool
  | ParseHeaders 'c
  | LogStarted

record 'c proto =
  connections :: "'c list"
  listener :: "unit option"
  opened :: bool
  performed :: "'c net_action list"

definition proto_init :: "'c proto" where
  "proto_init = \<lparr>connections = [], listener = None, opened = False, performed = []\<rparr>"

text \<open>
  An error thrown by Deno's sockets: \<^verbatim>\<open>Deno.errors.BadResource\<close> (the resource is closed
  already) or any other.
\<close>

datatype 'e deno_error = BadResource | OtherError 'e

text \<open>
  \<^verbatim>\<open>
  export function listen(opts: ServeOptions) {
    listener = listenTcp(opts);
    open = true;
    acceptConnections();
    log.info(...);
  }
  \<close>
  \<open>bind\<close> is what \<^verbatim>\<open>listenTcp\<close> does: it returns a listener or throws.
\<close>

definition listen :: "'e deno_error option \<Rightarrow> 'c proto \<Rightarrow> 'e deno_error option \<times> 'c proto" where
  "listen bind p =
     (case bind of
        Some e \<Rightarrow> (Some e, p\<lparr>performed := performed p @ [ListenTcp]\<rparr>)
      | None \<Rightarrow>
          (None, p\<lparr>listener := Some (), opened := True,
                   performed := performed p @ [ListenTcp, LogStarted]\<rparr>))"

text \<open>
  \<^verbatim>\<open>
  async function handleConnection(conn: Conn) {
    const client = new Client(conn, log);
    while (open && !client.closed) {
      const headerData = await parseHeaders(client.consumer, {...});
      if (!headerData) continue;
      const { packetLength, dataLength, id } = headerData;
    }
  }
  \<close>
  The loop is suspended at each \<^verbatim>\<open>await\<close>; while it is, other tasks run and may change
  \<^verbatim>\<open>open\<close> (the module's \<^verbatim>\<open>close\<close>) and \<^verbatim>\<open>client.closed\<close> (the \<^verbatim>\<open>Client\<close>, whose source
  is not among the repository's files). A \<open>turn\<close> says how one \<^verbatim>\<open>await parseHeaders\<close> comes back and
  what the two flags are when it does. A script of turns drives the loop; when the script
  is used up the pending parse is never resumed.
\<close>

datatype ('h, 'e) parsed = Header 'h | NoHeader | ParseFails 'e

record ('h, 'e) turn =
  outcome :: "('h, 'e) parsed"
  open_after :: bool
  closed_after :: bool

datatype 'e loop_end = LoopLeft | LoopThrew 'e | LoopWaiting

text \<open>
  The loop condition \<^verbatim>\<open>open && !client.closed\<close> reads \<^verbatim>\<open>open\<close> and, when that is true,
  \<^verbatim>\<open>client.closed\<close>; \<^verbatim>\<open>continue\<close> goes back to it.
\<close>

definition loop_condition :: "bool \<Rightarrow> bool \<Rightarrow> 'c net_action list" where
  "loop_condition opn closed = (if opn then [ReadOpen opn, ReadClosed closed] else [ReadOpen opn])"

fun session_loop ::
  "'c \<Rightarrow> bool \<Rightarrow> bool \<Rightarrow> ('h, 'e) turn list \<Rightarrow> 'c net_action list \<times> 'e loop_end" where
  "session_loop conn opn closed script =
     (if opn \<and> \<not> closed then
        (case script of
           [] \<Rightarrow> (loop_condition opn closed @ [ParseHeaders conn], LoopWaiting)
         | t # ts \<Rightarrow>
             (case outcome t of
                ParseFails e \<Rightarrow> (loop_condition opn closed @ [ParseHeaders conn], LoopThrew e)
              | NoHeader \<Rightarrow>
                  (let (acts, r) = session_loop conn (open_after t) (closed_after t) ts
                   in (loop_condition opn closed @ ParseHeaders conn # acts, r))
              | Header h \<Rightarrow>
                  (let (acts, r) = session_loop conn (open_after t) (closed_after t) ts
                   in (loop_condition opn closed @ ParseHeaders conn # acts, r))))
      else (loop_condition opn closed, LoopLeft))"

text \<open>
  A trace in which every header parse comes right after a read of \<^verbatim>\<open>open\<close> that gave true
  and a read of \<^verbatim>\<open>client.closed\<close> that gave false, and in which a read that came out the
  other way is the last thing done.
\<close>

fun guarded :: "'c net_action list \<Rightarrow> bool" where
  "guarded [] = True"
| "guarded (ReadOpen True # ReadClosed False # ParseHeaders conn # rest) = guarded rest"
| "guarded [ReadOpen False] = True"
| "guarded [ReadOpen True, ReadClosed True] = True"
| "guarded acts = False"

fun is_parse :: "'c net_action \<Rightarrow> bool" where
  "is_parse (ParseHeaders conn) = True"
| "is_parse a = False"

fun is_conn_close :: "'c net_action \<Rightarrow> bool" where
  "is_conn_close (ConnClose conn) = True"
| "is_conn_close a = False"

text \<open>A \<^verbatim>\<open>conn.close()\<close> that returns or throws \<^verbatim>\<open>BadResource\<close>.\<close>

fun harmless :: "'e deno_error option \<Rightarrow> bool" where
  "harmless None = True"
| "harmless (Some BadResource) = True"
| "harmless (Some (OtherError e)) = False"

text \<open>
  \<^verbatim>\<open>handleConnection\<close> for one connection: the client is built (its flag \<^verbatim>\<open>closed\<close> starts as
  \<open>closed0\<close>) and the loop runs against the module's \<^verbatim>\<open>open\<close>. The function assigns to no
  variable of the module.
\<close>

definition handleConnection ::
  "'c \<Rightarrow> bool \<Rightarrow> ('h, 'e) turn list \<Rightarrow> 'c proto \<Rightarrow> 'c net_action list \<times> 'e loop_end" where
  "handleConnection conn closed0 script p = session_loop conn (opened p) closed0 script"

text \<open>
  \<^verbatim>\<open>for await (const conn of listener) handleConnection(conn);\<close>
  One round of the accept loop: \<^verbatim>\<open>handleConnection(conn)\<close> is called and not awaited, so it
  runs up to its first \<^verbatim>\<open>await\<close> (the empty script) and the accept loop goes on.
\<close>

definition acceptConnection :: "'c \<Rightarrow> bool \<Rightarrow> 'c proto \<Rightarrow> 'c proto" where
  "acceptConnection conn closed0 p =
     p\<lparr>performed := performed p @ fst (handleConnection conn closed0 ([] :: (unit, unit) turn list) p)\<rparr>"

fun acceptConnections :: "('c \<times> bool) list \<Rightarrow> 'c proto \<Rightarrow> 'c proto" where
  "acceptConnections [] p = p"
| "acceptConnections ((conn, closed0) # rest) p =
     acceptConnections rest (acceptConnection conn closed0 p)"

text \<open>
  \<^verbatim>\<open>
  for (const conn of connections) {
    try {
      conn.close();
    } catch (err) {
      // Connection might have been already closed.
      if (!(err instanceof Deno.errors.BadResource)) throw err;
    }
  }
  \<close>
  \<open>cclose conn\<close> is what \<^verbatim>\<open>conn.close()\<close> does: \<open>None\<close> when it returns, the error when it
  throws. The result is the calls made and the error that leaves the loop, if any.
\<close>

fun close_sweep ::
  "('c \<Rightarrow> 'e deno_error option) \<Rightarrow> 'c list \<Rightarrow> 'c net_action list \<times> 'e deno_error option" where
  "close_sweep cclose [] = ([], None)"
| "close_sweep cclose (conn # conns) =
     (case cclose conn of
        None \<Rightarrow>
          (let (acts, r) = close_sweep cclose conns in (ConnClose conn # acts, r))
      | Some BadResource \<Rightarrow>
          (let (acts, r) = close_sweep cclose conns in (ConnClose conn # acts, r))
      | Some (OtherError e) \<Rightarrow> ([ConnClose conn], Some (OtherError e)))"

text \<open>
  \<^verbatim>\<open>
  export function close() {
    open = false;
    listener?.close();
    for (const conn of connections) { ... }
  }
  \<close>
  \<open>lclose\<close> is what the listener socket's \<^verbatim>\<open>close()\<close> does.
\<close>

definition close ::
  "'e deno_error option \<Rightarrow> ('c \<Rightarrow> 'e deno_error option) \<Rightarrow> 'c proto
     \<Rightarrow> 'e deno_error option \<times> 'c proto" where
  "close lclose cclose p =
     (let p1 = p\<lparr>opened := False\<rparr>;
          (thrown, p2) =
            (case listener p1 of
               None \<Rightarrow> (None, p1)
             | Some _ \<Rightarrow> (lclose, p1\<lparr>performed := performed p1 @ [ListenerClose]\<rparr>))
      in case thrown of
           Some e \<Rightarrow> (Some e, p2)
         | None \<Rightarrow>
             (let (acts, r) = close_sweep cclose (connections p2)
              in (r, p2\<lparr>performed := performed p2 @ acts\<rparr>)))"

section \<open>The logger (src/lib/utils/Logger.ts)\<close>

text \<open>
  \<^verbatim>\<open>enum LoggerLevels { DEBUG, INFO, WARN, ERROR }\<close>, numbered from 0. The methods
  \<^verbatim>\<open>debug\<close>, \<^verbatim>\<open>info\<close>, \<^verbatim>\<open>warn\<close>, \<^verbatim>\<open>error\<close> are built in that order with \<^verbatim>\<open>levelIndex\<close>
  0 to 3; each writes to the sink when \<^verbatim>\<open>levelIndex >= levelMin\<close>.
\<close>

datatype LoggerLevels = DEBUG | INFO | WARN | ERROR

fun levelIndex :: "LoggerLevels \<Rightarrow> nat" where
  "levelIndex DEBUG = 0"
| "levelIndex INFO = 1"
| "levelIndex WARN = 2"
| "levelIndex ERROR = 3"

section \<open>The orchestrator (src/unnamed/part_000)\<close>

datatype server = Rcon | Proto | Query

text \<open>
  What the orchestrator does to the outside, in order, each action stamped with the instant
  it happens at.
\<close>

datatype 'e action =
    ListenCall server
  | CloseCall server
  | SinkWrite LoggerLevels string "'e option"
  | FlushSync
  | Destroy
  | ConsoleError 'e
  | ProcessExit nat

record 'e world =
  isBooting :: bool
  clock :: nat
  trace :: "(nat \<times> 'e action) list"

text \<open>
  The collaborators whose source is not among the repository's files, as parameters: the three servers
  (\<^verbatim>\<open>RConServer\<close>, \<^verbatim>\<open>ProtoServer\<close>, \<^verbatim>\<open>QueryServer\<close>), the sink of the logger
  (\<^verbatim>\<open>SonicBoom\<close>: \<^verbatim>\<open>write\<close>, \<^verbatim>\<open>flushSync\<close>, \<^verbatim>\<open>destroy\<close>, each of which returns or
  throws) and the flag \<^verbatim>\<open>isDebug\<close>. A call of a server's \<^verbatim>\<open>listen()\<close> or \<^verbatim>\<open>close()\<close> either
  throws on the spot (\<open>listen_throws\<close>, \<open>close_throws\<close>: the error, when it does) or returns
  a value that is handed to \<^verbatim>\<open>Promise.all\<close> (\<open>listen_result\<close>, \<open>close_result\<close>: how that
  promise settles, counted from the call; a value that is no promise counts as fulfilled at
  once).
\<close>

record 'e env =
  isDebug :: bool
  listen_throws :: "server \<Rightarrow> 'e option"
  listen_result :: "server \<Rightarrow> 'e promise"
  close_throws :: "server \<Rightarrow> 'e option"
  close_result :: "server \<Rightarrow> 'e promise"
  write_throws :: "LoggerLevels \<Rightarrow> string \<Rightarrow> 'e option"
  flushSync_throws :: "'e option"
  destroy_throws :: "'e option"

text \<open>
  How a call ends: it returns, it throws, the process has exited inside it, or it is
  suspended at an \<^verbatim>\<open>await\<close> that never resumes.
\<close>

datatype 'e completion = Returned | Threw 'e | Exited nat | NeverResumes

definition seq ::
  "'e completion \<times> 'e world \<Rightarrow> ('e world \<Rightarrow> 'e completion \<times> 'e world)
     \<Rightarrow> 'e completion \<times> 'e world" where
  "seq r k = (case r of (Returned, w) \<Rightarrow> k w | _ \<Rightarrow> r)"

definition act :: "'e action \<Rightarrow> 'e world \<Rightarrow> 'e world" where
  "act a w = w\<lparr>trace := trace w @ [(clock w, a)]\<rparr>"

text \<open>
  \<^verbatim>\<open>const log = new Logger("master", isDebug ? LoggerLevels.DEBUG : LoggerLevels.WARN)\<close>
\<close>

definition levelMin :: "'e env \<Rightarrow> LoggerLevels" where
  "levelMin env = (if isDebug env then DEBUG else WARN)"

text \<open>
  \<^verbatim>\<open>
  this[lvl] = (...args) => {
    if (levelIndex >= levelMin) {
      let logStr = formatWithOptions(...);
      logStr += "\n";
      Logger.stdout.write(logStr);
    }
  };
  \<close>
\<close>

definition log_method ::
  "'e env \<Rightarrow> LoggerLevels \<Rightarrow> string \<Rightarrow> 'e option \<Rightarrow> 'e world \<Rightarrow> 'e completion \<times> 'e world" where
  "log_method env lvl msg err w =
     (if levelIndex lvl \<ge> levelIndex (levelMin env) then
        (case write_throws env lvl msg of
           None \<Rightarrow> (Returned, act (SinkWrite lvl msg err) w)
         | Some e \<Rightarrow> (Threw e, act (SinkWrite lvl msg err) w))
      else (Returned, w))"

text \<open>
  \<^verbatim>\<open>
  public destroySyncUnsafe(): void {
    try { Logger.stdout.flushSync(); } finally { Logger.stdout.destroy(); }
  }
  \<close>
  The \<^verbatim>\<open>finally\<close> block runs either way; an error it throws replaces the pending one.
\<close>

definition destroySyncUnsafe :: "'e env \<Rightarrow> 'e world \<Rightarrow> 'e completion \<times> 'e world" where
  "destroySyncUnsafe env w =
     (let w1 = act FlushSync w; w2 = act Destroy w1
      in case destroy_throws env of
           Some e \<Rightarrow> (Threw e, w2)
         | None \<Rightarrow>
             (case flushSync_throws env of
                Some e \<Rightarrow> (Threw e, w2)
              | None \<Rightarrow> (Returned, w2)))"

text \<open>
  \<^verbatim>\<open>await Promise.all([rcon.m(), proto.m(), query.m()])\<close>: the array is built first, so the
  three calls are made one after the other at the same instant. A call that throws ends the
  building of the array: the calls after it are not made, \<^verbatim>\<open>Promise.all\<close> is not reached
  and the error is thrown where the \<^verbatim>\<open>await\<close> stands. Otherwise the caller is suspended
  until the combined promise settles.
\<close>

fun call_each ::
  "(server \<Rightarrow> 'e action) \<Rightarrow> (server \<Rightarrow> 'e option) \<Rightarrow> server list \<Rightarrow> 'e world
     \<Rightarrow> 'e option \<times> 'e world" where
  "call_each call throws [] w = (None, w)"
| "call_each call throws (s # ss) w =
     (case throws s of
        Some e \<Rightarrow> (Some e, act (call s) w)
      | None \<Rightarrow> call_each call throws ss (act (call s) w))"

definition await_all ::
  "(server \<Rightarrow> 'e action) \<Rightarrow> (server \<Rightarrow> 'e option) \<Rightarrow> (server \<Rightarrow> 'e promise) \<Rightarrow> 'e world
     \<Rightarrow> 'e completion \<times> 'e world" where
  "await_all call throws result w =
     (case call_each call throws [Rcon, Proto, Query] w of
        (Some e, w1) \<Rightarrow> (Threw e, w1)
      | (None, w1) \<Rightarrow>
          (case promise_all (clock w)
                  (map (\<lambda>s. started (clock w) (result s)) [Rcon, Proto, Query]) of
             Resolves t \<Rightarrow> (Returned, w1\<lparr>clock := t\<rparr>)
           | Rejects t e \<Rightarrow> (Threw e, w1\<lparr>clock := t\<rparr>)
           | Pending \<Rightarrow> (NeverResumes, w1)))"

text \<open>
  \<^verbatim>\<open>process.exit(code)\<close> ends the process and does not return; without an argument the exit
  code is 0 (nothing in the program sets \<^verbatim>\<open>process.exitCode\<close>).
\<close>

definition process_exit :: "nat \<Rightarrow> 'e world \<Rightarrow> 'e completion \<times> 'e world" where
  "process_exit code w = (Exited code, act (ProcessExit code) w)"

text \<open>
  \<^verbatim>\<open>
  export async function stop() {
    try {
      log.warn("Stopping server.");
      await Promise.all([rcon.close(), proto.close(), query.close()]);
      log.info("Thanks for playing!");
      log.destroySyncUnsafe();
      process.exit();
    } catch (err) {
      console.error("An error occurred while stopping the server!", ..., err);
      process.exit(1);
    }
  }
  \<close>
\<close>

definition stop_try :: "'e env \<Rightarrow> 'e world \<Rightarrow> 'e completion \<times> 'e world" where
  "stop_try env w =
     seq (log_method env WARN ''Stopping server.'' None w) (\<lambda>w.
     seq (await_all CloseCall (close_throws env) (close_result env) w) (\<lambda>w.
     seq (log_method env INFO ''Thanks for playing!'' None w) (\<lambda>w.
     seq (destroySyncUnsafe env w) (\<lambda>w.
     process_exit 0 w))))"

definition stop_catch :: "'e \<Rightarrow> 'e world \<Rightarrow> 'e completion \<times> 'e world" where
  "stop_catch err w = process_exit 1 (act (ConsoleError err) w)"

definition stop :: "'e env \<Rightarrow> 'e world \<Rightarrow> 'e completion \<times> 'e world" where
  "stop env w =
     (case stop_try env w of
        (Threw err, w') \<Rightarrow> stop_catch err w'
      | r \<Rightarrow> r)"

text \<open>
  \<^verbatim>\<open>
  export async function bootstrap() {
    try {
      await Promise.all([rcon.listen(), proto.listen(), query.listen()]);
      isBooting = false;
      log.info("We're ready to roll boss!");
    } catch (err) {
      if (isBooting) {
        log.error("An error occurred while booting!", err);
        log.warn("The server will now stop.");
        await stop();
      } else {
        log.error("An error occurred in Spile! Please report this to the developers.", err);
      }
    }
  }
  \<close>
\<close>

definition bootstrap_try :: "'e env \<Rightarrow> 'e world \<Rightarrow> 'e completion \<times> 'e world" where
  "bootstrap_try env w =
     seq (await_all ListenCall (listen_throws env) (listen_result env) w) (\<lambda>w.
     log_method env INFO ''We're ready to roll boss!'' None (w\<lparr>isBooting := False\<rparr>))"

definition bootstrap_catch :: "'e env \<Rightarrow> 'e \<Rightarrow> 'e world \<Rightarrow> 'e completion \<times> 'e world" where
  "bootstrap_catch env err w =
     (if isBooting w then
        seq (log_method env ERROR ''An error occurred while booting!'' (Some err) w) (\<lambda>w.
        seq (log_method env WARN ''The server will now stop.'' None w) (\<lambda>w.
        stop env w))
      else
        log_method env ERROR
          ''An error occurred in Spile! Please report this to the developers.'' (Some err) w)"

definition bootstrap :: "'e env \<Rightarrow> 'e world \<Rightarrow> 'e completion \<times> 'e world" where
  "bootstrap env w =
     (case bootstrap_try env w of
        (Threw err, w') \<Rightarrow> bootstrap_catch env err w'
      | r \<Rightarrow> r)"

text \<open>The module's state once loaded: \<^verbatim>\<open>let isBooting = true\<close>, nothing done yet.\<close>

definition world_init :: "'e world" where
  "world_init = \<lparr>isBooting = True, clock = 0, trace = []\<rparr>"




section \<open>Properties of the long codec\<close>

lemma be_bytes_length: "length (be_bytes n x) = n"
  by (induction n arbitrary: x) simp_all

lemma be_value_snoc: "be_value (bs @ [b]) = be_value bs * 256 + unat b"
  by (simp add: be_value_def)

lemma be_value_be_bytes: "be_value (be_bytes n x) = x mod 256 ^ n"
proof (induction n arbitrary: x)
  case 0
  show ?case by (simp add: be_value_def)
next
  case (Suc n)
  have b: "unat (of_nat (x mod 256) :: byte) = x mod 256"
    by (simp add: unat_of_nat)
  have "be_value (be_bytes (Suc n) x) = (x div 256) mod 256 ^ n * 256 + x mod 256"
    by (simp add: be_value_snoc Suc.IH b)
  also have "\<dots> = x mod 256 ^ Suc n"
    by (simp add: mod_mult2_eq mult.commute)
  finally show ?case .
qed

text \<open>
  C6. \<^verbatim>\<open>validate\<close> of the long codec is true exactly on the range of a 64-bit signed
  integer, \<open>- 2^63 \<le> v \<le> 2^63 - 1\<close>; it rejects \<open>9223372036854775808\<close> and
  \<open>-9223372036854775809\<close> and accepts \<open>9223372036854775807\<close> and \<open>-9223372036854775808\<close>.
\<close>

theorem long_validate_range:
  "(\<forall>v. long_validate v = (- (2 ^ 63) \<le> v \<and> v \<le> 2 ^ 63 - 1))
   \<and> long_validate 9223372036854775808 = False
   \<and> long_validate (- 9223372036854775809) = False
   \<and> long_validate 9223372036854775807 = True
   \<and> long_validate (- 9223372036854775808) = True"
  by (simp add: long_validate_def MIN_LONG_def MAX_LONG_def)

text \<open>
  The two halves of the codec agree on the wire format. Reading a 64-bit value as two's
  complement undoes the reduction modulo \<open>2^64\<close> on the range \<^verbatim>\<open>validate\<close> accepts.
\<close>

lemma signed_wrap_gen:
  fixes v m :: int
  assumes "- m \<le> v" "v < m"
  shows "(if nat (v mod (2 * m)) \<ge> nat m then int (nat (v mod (2 * m))) - 2 * m
          else int (nat (v mod (2 * m)))) = v"
proof (cases "0 \<le> v")
  case True
  with assms have "v mod (2 * m) = v" by (intro mod_pos_pos_trivial) linarith+
  with True assms show ?thesis by simp
next
  case False
  with assms have "(v + 2 * m) mod (2 * m) = v + 2 * m"
    by (intro mod_pos_pos_trivial) linarith+
  then have "v mod (2 * m) = v + 2 * m" by simp
  with False assms show ?thesis by simp
qed

lemma signed_wrap:
  fixes v :: int
  assumes "- (2 ^ 63) \<le> v" "v \<le> 2 ^ 63 - 1"
  shows "(if nat (v mod 2 ^ 64) \<ge> 2 ^ 63 then int (nat (v mod 2 ^ 64)) - 2 ^ 64
          else int (nat (v mod 2 ^ 64))) = v"
proof -
  have a: "(2::int) * 2 ^ 63 = 2 ^ 64" by simp
  have b: "nat ((2::int) ^ 63) = 2 ^ 63" by (simp add: nat_power_eq)
  from assms have "v < 2 ^ 63" by linarith
  from signed_wrap_gen [OF assms(1) this] show ?thesis
    unfolding a b .
qed

lemma nat_mod_64_bound: "nat ((v::int) mod 2 ^ 64) mod 256 ^ 8 = nat (v mod 2 ^ 64)"
proof -
  have "(0::int) \<le> v mod 2 ^ 64" "v mod 2 ^ 64 < 2 ^ 64" by simp_all
  then have "nat (v mod 2 ^ 64) < nat (2 ^ 64)" by (intro nat_mono_iff [THEN iffD2]) simp_all
  also have "nat (2 ^ 64) = (256::nat) ^ 8" by (simp add: nat_power_eq)
  finally show ?thesis by (rule mod_less)
qed

lemma getBigInt64_be_bytes:
  assumes "long_validate v"
  shows "getBigInt64 (be_bytes 8 (nat (v mod 2 ^ 64))) 0 = Inr v"
proof -
  from assms have r: "- (2 ^ 63) \<le> v" "v \<le> 2 ^ 63 - 1"
    by (simp_all add: long_validate_def MIN_LONG_def MAX_LONG_def)
  have len: "length (be_bytes 8 (nat (v mod 2 ^ 64))) = 8" by (rule be_bytes_length)
  have fit: "\<not> 0 + 8 > length (be_bytes 8 (nat (v mod 2 ^ 64)))"
    by (simp only: len add_0 less_irrefl not_False_eq_True)
  have "take 8 (drop 0 (be_bytes 8 (nat (v mod 2 ^ 64)))) = be_bytes 8 (nat (v mod 2 ^ 64))"
    by (simp only: drop_0 take_all len order.refl)
  then have val: "be_value (take 8 (drop 0 (be_bytes 8 (nat (v mod 2 ^ 64))))) = nat (v mod 2 ^ 64)"
    by (simp only: be_value_be_bytes nat_mod_64_bound)
  show ?thesis
    unfolding getBigInt64_def Let_def val
    by (simp only: fit if_False signed_wrap [OF r])
qed

text \<open>
  On a buffer that is an \<^verbatim>\<open>ArrayBuffer\<close>, \<^verbatim>\<open>setBigInt64(0, v)\<close> leaves the eight big-endian
  bytes of \<open>v mod 2^64\<close>.
\<close>

lemma setBigInt64_ArrayBuffer:
  "setBigInt64 (empty_heap(a \<mapsto> replicate 8 0)) \<lparr>buffer = a\<rparr> 0 v
     = Inr (empty_heap(a \<mapsto> be_bytes 8 (nat (v mod 2 ^ 64))))"
  by (simp add: setBigInt64_def be_bytes_length del: be_bytes.simps)

text \<open>
  \<^verbatim>\<open>decode\<close>, on a consumer pre-loaded with exactly those eight bytes, yields \<open>v\<close> and
  has read all eight.
\<close>

lemma long_decode_preloaded:
  assumes "long_validate v"
  shows "long_decode (preloaded (be_bytes 8 (nat (v mod 2 ^ 64))))
         = Yields (v, (preloaded (be_bytes 8 (nat (v mod 2 ^ 64))))\<lparr>position := 8\<rparr>)"
proof -
  have rw: "readWithView (preloaded (be_bytes 8 (nat (v mod 2 ^ 64)))) 8
        = Yields ((0, be_bytes 8 (nat (v mod 2 ^ 64))),
                  (preloaded (be_bytes 8 (nat (v mod 2 ^ 64))))\<lparr>position := 8\<rparr>)"
    by (simp add: readWithView_def preloaded_def be_bytes_length del: be_bytes.simps)
  show ?thesis
    unfolding long_decode_def rw
    by (simp only: awaited.case prod.case sum.case getBigInt64_be_bytes [OF assms])
qed

text \<open>
  C1 (round trip of the long codec: for every \<open>v\<close> that \<^verbatim>\<open>validate\<close> accepts, \<^verbatim>\<open>encode(v)\<close>
  is eight bytes that \<^verbatim>\<open>decode\<close> turns back into \<open>v\<close>). The code does not get that far:
  \<^verbatim>\<open>encode\<close> hands the typed array \<^verbatim>\<open>bytes\<close>, not its buffer, to the \<^verbatim>\<open>DataView\<close>
  constructor, which throws \<^verbatim>\<open>TypeError\<close>; so \<^verbatim>\<open>encode\<close> throws for every value, also at
  the accepted value \<open>0\<close>, and produces no bytes. The lemmas above show that the \<^verbatim>\<open>DataView\<close>
  writes and reads themselves would round-trip.
\<close>

theorem long_encode_throws:
  "long_validate 0 = True \<and> (\<forall>v. long_encode v = Inl TypeError)"
  by (simp add: long_encode_def new_Uint8Array_def long_validate_def MIN_LONG_def MAX_LONG_def)

section \<open>Properties of promises\<close>



lemma all_fulfilled_Some:
  "all_fulfilled now ps = Some t \<Longrightarrow>
     now \<le> t \<and> (\<forall>p \<in> set ps. \<exists>t'. p = Resolves t' \<and> t' \<le> t)"
proof (induction ps arbitrary: t)
  case Nil
  then show ?case by simp
next
  case (Cons q ps)
  show ?case
  proof (cases q)
    case (Resolves t0)
    with Cons.prems obtain t1 where t1: "all_fulfilled now ps = Some t1" and t: "t = max t0 t1"
      by (auto split: option.splits)
    from Cons.IH [OF t1]
    have "now \<le> t1" and r: "\<forall>p \<in> set ps. \<exists>t'. p = Resolves t' \<and> t' \<le> t1"
      by simp_all
    from \<open>now \<le> t1\<close> t have "now \<le> t" by simp
    moreover have "\<forall>p \<in> set (q # ps). \<exists>t'. p = Resolves t' \<and> t' \<le> t"
      using r t Resolves by fastforce
    ultimately show ?thesis by simp
  next
    case (Rejects t' e')
    with Cons.prems show ?thesis by simp
  next
    case Pending
    with Cons.prems show ?thesis by simp
  qed
qed

lemma promise_all_Resolves:
  assumes "promise_all now ps = Resolves t"
  shows "now \<le> t" and "\<And>p. p \<in> set ps \<Longrightarrow> \<exists>t'. p = Resolves t' \<and> t' \<le> t"
proof -
  from assms have "all_fulfilled now ps = Some t"
    by (auto simp: promise_all_def split: option.splits prod.splits)
  from all_fulfilled_Some [OF this]
  show "now \<le> t" and "\<And>p. p \<in> set ps \<Longrightarrow> \<exists>t'. p = Resolves t' \<and> t' \<le> t"
    by simp_all
qed


lemma promise_all_fulfils:
  assumes "\<forall>p \<in> set ps. \<exists>t. p = Resolves t"
  shows "\<exists>t. promise_all now ps = Resolves t"
proof -
  from assms have "first_rejection ps = None \<and> (\<exists>t. all_fulfilled now ps = Some t)"
  proof (induction ps)
    case Nil
    show ?case by simp
  next
    case (Cons q ps)
    from Cons.prems obtain t0 where q: "q = Resolves t0" by auto
    from Cons.prems have "\<forall>p \<in> set ps. \<exists>t. p = Resolves t" by simp
    from Cons.IH [OF this] q show ?case by auto
  qed
  then show ?thesis by (auto simp: promise_all_def)
qed

section \<open>Properties of the event bus\<close>

lemma map_set_same: "map_get m k = Some v \<Longrightarrow> map_set k v m = m"
  by (induction m) (auto split: if_splits)

lemma map_get_map_set:
  "map_get (map_set k v m) k' = (if k' = k then Some v else map_get m k')"
  by (induction m) auto

lemma map_get_map_delete:
  "map_get (map_delete k m) k' = (if k' = k then None else map_get m k')"
  by (induction m) (auto simp: map_delete_def)

lemma keys_map_set: "set (map fst (map_set k v m)) = insert k (set (map fst m))"
proof (induction m)
  case Nil
  show ?case by simp
next
  case (Cons a m)
  obtain k' v' where a: "a = (k', v')" by (cases a)
  show ?case
  proof (cases "k' = k")
    case True
    with a show ?thesis by simp
  next
    case False
    with a Cons.IH show ?thesis by (simp add: insert_commute)
  qed
qed

lemma distinct_map_set: "distinct (map fst m) \<Longrightarrow> distinct (map fst (map_set k v m))"
proof (induction m)
  case Nil
  then show ?case by simp
next
  case (Cons a m)
  obtain k' v' where a: "a = (k', v')" by (cases a)
  from Cons.prems a have fresh: "k' \<notin> set (map fst m)" and d: "distinct (map fst m)"
    by simp_all
  show ?case
  proof (cases "k' = k")
    case True
    with Cons.prems a show ?thesis by simp
  next
    case False
    from fresh False have "k' \<notin> set (map fst (map_set k v m))"
      by (simp only: keys_map_set) simp
    with False a Cons.IH [OF d] show ?thesis by simp
  qed
qed

lemma distinct_map_delete: "distinct (map fst m) \<Longrightarrow> distinct (map fst (map_delete k m))"
  by (simp add: map_delete_def distinct_map_filter)

lemma filter_absent: "k \<notin> set (map fst m) \<Longrightarrow> filter (\<lambda>(k', _). k' = k) m = []"
  by (induction m) auto

lemma found_registered:
  "distinct (map fst m) \<Longrightarrow>
     concat (map (\<lambda>(_, lsFn). lsFn) (filter (\<lambda>(evId, _). evId = k) m)) = registered m k"
proof (induction m)
  case Nil
  then show ?case by (simp add: registered_def)
next
  case (Cons a m)
  obtain k' v' where a: "a = (k', v')" by (cases a)
  from Cons.prems a have fresh: "k' \<notin> set (map fst m)" and d: "distinct (map fst m)"
    by simp_all
  show ?case
  proof (cases "k' = k")
    case True
    with fresh have "filter (\<lambda>(evId, _). evId = k) m = []" by (simp add: filter_absent)
    with True a show ?thesis by (simp add: registered_def)
  next
    case False
    with a Cons.IH [OF d] show ?thesis by (simp add: registered_def)
  qed
qed

text \<open>
  What \<^verbatim>\<open>on\<close> and \<^verbatim>\<open>off\<close> do to the listeners registered under each id, and that they
  keep the keys of the registry distinct, as a \<^verbatim>\<open>Map\<close> does.
\<close>

lemma registered_empty: "registered [] k = []"
  by (simp add: registered_def)

lemma registered_on:
  "registered (on m k l) k' = (if k' = k then registered m k @ [l] else registered m k')"
  by (simp add: on_def registered_def map_get_map_set)

lemma registered_off_all:
  "registered (off m k None) k' = (if k' = k then [] else registered m k')"
  by (auto simp: off_def registered_def map_get_map_delete split: option.splits)

lemma distinct_on: "distinct (map fst m) \<Longrightarrow> distinct (map fst (on m k l))"
  by (simp add: on_def distinct_map_set)

lemma distinct_off: "distinct (map fst m) \<Longrightarrow> distinct (map fst (off m k l))"
  by (auto simp: off_def Let_def distinct_map_set distinct_map_delete split: option.splits)

lemma off_Some_id: "off m k (Some l) = m"
  by (auto simp: off_def Let_def map_set_same split: option.splits)

lemma map_get_Some: "map_get m k = Some ls \<Longrightarrow> (k, ls) \<in> set m"
  by (induction m) (auto split: if_splits)

lemma registered_found:
  assumes "l \<in> set (registered m k)"
  shows "l \<in> set (concat (map (\<lambda>(_, lsFn). lsFn) (filter (\<lambda>(evId, _). evId = k) m)))"
proof -
  from assms obtain ls where ls: "map_get m k = Some ls" and l: "l \<in> set ls"
    by (cases "map_get m k") (simp_all add: registered_def)
  from map_get_Some [OF ls] have "(k, ls) \<in> set (filter (\<lambda>(evId, _). evId = k) m)"
    by simp
  with l show ?thesis by force
qed

text \<open>
  C9. For every event id and every listener registered under it, \<^verbatim>\<open>off(id, listener)\<close> with
  the listener given leaves the registry, and so the list registered under the id, as it
  was; a following \<^verbatim>\<open>send(id, ...)\<close> still calls that listener.
\<close>

theorem off_listener_no_effect:
  assumes "lsn \<in> set (registered listeners eid)"
  shows "off listeners eid (Some lsn) = listeners
       \<and> registered (off listeners eid (Some lsn)) eid = registered listeners eid
       \<and> (lsn, args) \<in> set (fst (send run now (off listeners eid (Some lsn)) eid args))"
proof -
  have same: "off listeners eid (Some lsn) = listeners" by (rule off_Some_id)
  from registered_found [OF assms]
  have "(lsn, args) \<in> set (fst (send run now listeners eid args))"
    by (simp add: send_def Let_def image_iff)
  with same show ?thesis by simp
qed

theorem off_listener_no_effect_witness:
  "(1::nat) \<in> set (registered (on (on [] ''line'' (1::nat)) ''line'' 2) ''line'')
   \<and> off (on (on [] ''line'' (1::nat)) ''line'' 2) ''line'' (Some 1)
       = on (on [] ''line'' (1::nat)) ''line'' 2
   \<and> registered (off (on (on [] ''line'' (1::nat)) ''line'' 2) ''line'' (Some 1)) ''line'' = [1, 2]
   \<and> ((1::nat), ''data'') \<in> set (fst (send (\<lambda>l a. (ReturnsVoid :: unit returned)) 0
           (off (on (on [] ''line'' (1::nat)) ''line'' 2) ''line'' (Some 1)) ''line'' ''data''))"
proof -
  have r: "registered (on (on [] ''line'' (1::nat)) ''line'' 2) ''line'' = [1, 2]"
    by (simp add: registered_on registered_empty)
  then have h: "(1::nat) \<in> set (registered (on (on [] ''line'' (1::nat)) ''line'' 2) ''line'')"
    by simp
  note t = off_listener_no_effect [OF h, of "''data''" "\<lambda>l a. (ReturnsVoid :: unit returned)" 0]
  from h t [unfolded r] show ?thesis by (rule conjI)
qed

lemma async_call_completed:
  assumes "completed_by now t res"
  shows "\<exists>t'. async_call now res = Resolves t'"
proof (cases res)
  case (Throws e)
  with assms show ?thesis by simp
next
  case ReturnsVoid
  then show ?thesis by (simp add: async_call_def isPromise_truthy_def)
next
  case (ReturnsPromise p)
  with assms show ?thesis
    by (cases p) (simp_all add: async_call_def isPromise_truthy_def)
qed

text \<open>
  The promise of \<^verbatim>\<open>send\<close> does get fulfilled when every listener registered under the id
  runs to completion.
\<close>

lemma send_resolves:
  assumes "distinct (map fst m)"
    and "\<forall>l \<in> set (registered m k). \<exists>t. completed_by now t (run l args)"
  shows "\<exists>t. snd (send run now m k args) = Resolves t"
proof -
  have "snd (send run now m k args)
      = promise_all now (map (\<lambda>l. async_call now (run l args)) (registered m k))"
    by (simp add: send_def Let_def found_registered [OF assms(1)])
  moreover have "\<forall>p \<in> set (map (\<lambda>l. async_call now (run l args)) (registered m k)).
                  \<exists>t. p = Resolves t"
    using assms(2) async_call_completed by fastforce
  ultimately show ?thesis
    using promise_all_fulfils by metis
qed

text \<open>
  C10. \<^verbatim>\<open>send(id, ...args)\<close> calls exactly the listeners registered under \<open>id\<close>, in order,
  each with \<open>args\<close> (a listener registered under another id only is not called), and the
  promise it returns is fulfilled only when every one of these calls has run to completion,
  the promise a listener returned included: if it is fulfilled at \<open>t\<close>, each call had
  completed by \<open>t\<close>.
\<close>

theorem send_calls_registered:
  assumes "distinct (map fst listeners)"
  shows "fst (send run now listeners eid args) = map (\<lambda>l. (l, args)) (registered listeners eid)
       \<and> (\<forall>t. snd (send run now listeners eid args) = Resolves t \<longrightarrow>
             now \<le> t \<and> (\<forall>l \<in> set (registered listeners eid). completed_by now t (run l args)))"
proof -
  let ?found = "concat (map (\<lambda>(_, lsFn). lsFn) (filter (\<lambda>(evId, _). evId = eid) listeners))"
  have found: "?found = registered listeners eid"
    by (rule found_registered [OF assms])
  have calls: "fst (send run now listeners eid args) = map (\<lambda>l. (l, args)) (registered listeners eid)"
    by (simp add: send_def Let_def found)
  have prom: "snd (send run now listeners eid args)
      = promise_all now (map (\<lambda>l. async_call now (run l args)) (registered listeners eid))"
    by (simp add: send_def Let_def found)
  have "now \<le> t \<and> (\<forall>l \<in> set (registered listeners eid). completed_by now t (run l args))"
    if res: "snd (send run now listeners eid args) = Resolves t" for t
  proof -
    from res prom have pa:
      "promise_all now (map (\<lambda>l. async_call now (run l args)) (registered listeners eid)) = Resolves t"
      by simp
    have le: "now \<le> t" by (rule promise_all_Resolves(1) [OF pa])
    have "completed_by now t (run l args)" if l: "l \<in> set (registered listeners eid)" for l
    proof -
      from l have "async_call now (run l args)
          \<in> set (map (\<lambda>l. async_call now (run l args)) (registered listeners eid))"
        by simp
      from promise_all_Resolves(2) [OF pa this]
      obtain t' where t': "async_call now (run l args) = Resolves t'" "t' \<le> t" by blast
      show ?thesis
      proof (cases "run l args")
        case (Throws e)
        with t' show ?thesis by (simp add: async_call_def)
      next
        case ReturnsVoid
        with le show ?thesis by simp
      next
        case (ReturnsPromise p)
        with t' show ?thesis
          by (cases p) (simp_all add: async_call_def isPromise_truthy_def)
      qed
    qed
    with le show ?thesis by blast
  qed
  with calls show ?thesis by blast
qed

theorem send_calls_registered_witness:
  "(let listeners = on (on (on [] ''line'' (1::nat)) ''ready'' 2) ''line'' 3;
        run = (\<lambda>l (a::string).
                 if l = 1 then ReturnsVoid
                 else if l = 2 then Throws ()
                 else ReturnsPromise (Resolves 5))
    in distinct (map fst listeners)
       \<and> fst (send run 10 listeners ''line'' ''data'') = [(1, ''data''), (3, ''data'')]
       \<and> snd (send run 10 listeners ''line'' ''data'') = Resolves 16
       \<and> completed_by 10 16 (run 1 ''data'')
       \<and> completed_by 10 16 (run 3 ''data''))"
proof -
  let ?L = "on (on (on [] ''line'' (1::nat)) ''ready'' 2) ''line'' 3"
  let ?run = "\<lambda>(l::nat) (a::string).
                 if l = 1 then ReturnsVoid
                 else if l = 2 then Throws ()
                 else ReturnsPromise (Resolves 5)"
  have d: "distinct (map fst ?L)"
    by (simp add: on_def)
  have reg: "registered ?L ''line'' = [1, 3]"
    by (simp add: registered_on registered_empty)
  have res: "snd (send ?run 10 ?L ''line'' ''data'') = Resolves 16"
    by (simp add: send_def on_def promise_all_def async_call_def isPromise_truthy_def)
  note t = send_calls_registered [OF d, of ?run 10 "''line''" "''data''"]
  from t have calls: "fst (send ?run 10 ?L ''line'' ''data'') = [(1, ''data''), (3, ''data'')]"
    unfolding reg by simp
  from t res have "\<forall>l \<in> set (registered ?L ''line''). completed_by 10 16 (?run l ''data'')"
    by blast
  then have c1: "completed_by 10 16 (?run 1 ''data'')" and c3: "completed_by 10 16 (?run 3 ''data'')"
    unfolding reg by simp_all
  from d calls res c1 c3 show ?thesis
    unfolding Let_def by (intro conjI)
qed

section \<open>Properties of the protocol listener\<close>

lemma close_sweep_harmless:
  "\<forall>c \<in> set conns. harmless (cclose c) \<Longrightarrow>
     close_sweep cclose conns = (map ConnClose conns, None)"
proof (induction conns)
  case Nil
  show ?case by simp
next
  case (Cons c conns)
  from Cons.prems have h: "harmless (cclose c)" and rest: "\<forall>c \<in> set conns. harmless (cclose c)"
    by simp_all
  from Cons.IH [OF rest] have ih: "close_sweep cclose conns = (map ConnClose conns, None)" .
  from h show ?case
  proof (cases "cclose c")
    case None
    with ih show ?thesis by simp
  next
    case (Some err)
    with h have "err = BadResource" by (cases err) simp_all
    with Some ih show ?thesis by simp
  qed
qed

lemma close_sweep_rethrows:
  assumes "\<forall>c \<in> set before. harmless (cclose c)" and "cclose conn = Some (OtherError e)"
  shows "close_sweep cclose (before @ conn # rest)
         = (map ConnClose (before @ [conn]), Some (OtherError e))"
  using assms(1)
proof (induction before)
  case Nil
  from assms(2) show ?case by simp
next
  case (Cons c before)
  from Cons.prems have h: "harmless (cclose c)" and r: "\<forall>c \<in> set before. harmless (cclose c)"
    by simp_all
  note ih = Cons.IH [OF r]
  from h show ?case
  proof (cases "cclose c")
    case None
    with ih show ?thesis by simp
  next
    case (Some err)
    with h have "err = BadResource" by (cases err) simp_all
    with Some ih show ?thesis by simp
  qed
qed

lemma close_runs_sweep:
  assumes "listener p = None \<or> lclose = None"
  shows "fst (close lclose cclose p) = snd (close_sweep cclose (connections p))"
    and "performed (snd (close lclose cclose p))
         = performed p @ (case listener p of None \<Rightarrow> [] | Some u \<Rightarrow> [ListenerClose])
             @ fst (close_sweep cclose (connections p))"
    and "opened (snd (close lclose cclose p)) = False"
  using assms
  by (auto simp: close_def Let_def split: option.splits prod.splits)

text \<open>
  C4. In the sweep of \<^verbatim>\<open>close()\<close> over the connections, a \<^verbatim>\<open>conn.close()\<close> that throws
  \<^verbatim>\<open>BadResource\<close> (the connection was closed already) counts as done: when every connection's
  close returns or throws \<^verbatim>\<open>BadResource\<close>, \<^verbatim>\<open>close()\<close> calls \<^verbatim>\<open>conn.close()\<close> on each of them
  and throws nothing. Any other error of a connection's close is thrown on to the caller
  of \<^verbatim>\<open>close()\<close>, at the first connection that raises one. (The listener socket's own close
  is taken to return.)
\<close>

theorem close_sweep_errors:
  assumes "listener p = None \<or> lclose = None"
  shows "((\<forall>c \<in> set (connections p). harmless (cclose c)) \<longrightarrow>
            fst (close lclose cclose p) = None
          \<and> filter is_conn_close (performed (snd (close lclose cclose p)))
              = filter is_conn_close (performed p) @ map ConnClose (connections p))
       \<and> ((\<forall>c \<in> set before. harmless (cclose c)) \<and> cclose conn = Some (OtherError e)
            \<and> connections p = before @ conn # rest \<longrightarrow>
            fst (close lclose cclose p) = Some (OtherError e))"
proof (intro conjI impI)
  assume h: "\<forall>c \<in> set (connections p). harmless (cclose c)"
  from close_sweep_harmless [OF h] close_runs_sweep(1) [OF assms]
  show "fst (close lclose cclose p) = None" by simp
  have "filter is_conn_close (map ConnClose (connections p)) = map ConnClose (connections p)"
    by (induction "connections p") (simp_all add: filter_id_conv)
  with close_sweep_harmless [OF h] close_runs_sweep(2) [OF assms, of cclose]
  show "filter is_conn_close (performed (snd (close lclose cclose p)))
        = filter is_conn_close (performed p) @ map ConnClose (connections p)"
    by (simp split: option.splits)
next
  assume a: "(\<forall>c \<in> set before. harmless (cclose c)) \<and> cclose conn = Some (OtherError e)
             \<and> connections p = before @ conn # rest"
  then have "close_sweep cclose (connections p)
             = (map ConnClose (before @ [conn]), Some (OtherError e))"
    using close_sweep_rethrows [of before cclose conn e rest] by simp
  with close_runs_sweep(1) [OF assms]
  show "fst (close lclose cclose p) = Some (OtherError e)" by simp
qed

theorem close_sweep_errors_witness:
  "(let p = \<lparr>connections = [1::nat, 2, 3], listener = Some (), opened = True, performed = []\<rparr>;
        gone = (\<lambda>c. if c = 1 then None else Some (BadResource :: string deno_error));
        reset = (\<lambda>c. if c = 3 then Some (OtherError ''reset'') else Some BadResource)
    in (listener p = None \<or> (None :: string deno_error option) = None)
       \<and> fst (close None gone p) = None
       \<and> filter is_conn_close (performed (snd (close None gone p)))
           = [ConnClose 1, ConnClose 2, ConnClose 3]
       \<and> fst (close None reset p) = Some (OtherError ''reset''))"
proof -
  let ?p = "\<lparr>connections = [1::nat, 2, 3], listener = Some (), opened = True, performed = []\<rparr>"
  let ?gone = "\<lambda>c::nat. if c = 1 then None else Some (BadResource :: string deno_error)"
  let ?reset = "\<lambda>c::nat. if c = 3 then Some (OtherError ''reset'') else Some BadResource"
  have l: "listener ?p = None \<or> (None :: string deno_error option) = None" by simp
  have g: "\<forall>c \<in> set (connections ?p). harmless (?gone c)" by simp
  have r: "(\<forall>c \<in> set [1::nat, 2]. harmless (?reset c)) \<and> ?reset 3 = Some (OtherError ''reset'')
           \<and> connections ?p = [1, 2] @ 3 # []" by simp
  from close_sweep_errors [OF l, of ?gone] g
  have a: "fst (close None ?gone ?p) = None"
    and b: "filter is_conn_close (performed (snd (close None ?gone ?p)))
            = filter is_conn_close (performed ?p) @ map ConnClose (connections ?p)"
    by blast+
  from b have b': "filter is_conn_close (performed (snd (close None ?gone ?p)))
            = [ConnClose 1, ConnClose 2, ConnClose 3]" by simp
  from close_sweep_errors [OF l, of ?reset "[1, 2]" 3 "''reset''" "[]"] r
  have c: "fst (close None ?reset ?p) = Some (OtherError ''reset'')" by blast
  from l a b' c show ?thesis unfolding Let_def by (intro conjI)
qed

lemma connections_acceptConnection:
  "connections (acceptConnection conn closed0 p) = connections p"
  by (simp add: acceptConnection_def)

lemma listener_acceptConnections:
  "connections (acceptConnections conns p) = connections p"
proof (induction conns arbitrary: p)
  case Nil
  show ?case by simp
next
  case (Cons a conns)
  obtain conn closed0 where a: "a = (conn, closed0)" by (cases a)
  with Cons.IH [of "acceptConnection conn closed0 p"] show ?case
    by (simp add: connections_acceptConnection)
qed

lemma close_sweep_empty:
  "connections p = [] \<Longrightarrow>
     filter is_conn_close (performed (snd (close lclose cclose p)))
       = filter is_conn_close (performed p)"
  by (auto simp: close_def Let_def split: option.splits)

lemma no_conn_close_session_loop:
  "filter is_conn_close (fst (session_loop conn opn closed script)) = []"
proof (induction script arbitrary: opn closed)
  case Nil
  show ?case by (simp add: loop_condition_def)
next
  case (Cons t ts)
  show ?case
  proof (cases "outcome t")
    case (Header h)
    with Cons.IH show ?thesis by (simp add: loop_condition_def case_prod_beta)
  next
    case NoHeader
    with Cons.IH show ?thesis by (simp add: loop_condition_def case_prod_beta)
  next
    case (ParseFails e)
    then show ?thesis by (simp add: loop_condition_def)
  qed
qed

lemma no_conn_close_acceptConnections:
  "filter is_conn_close (performed (acceptConnections conns p))
     = filter is_conn_close (performed p)"
proof (induction conns arbitrary: p)
  case Nil
  show ?case by simp
next
  case (Cons a conns)
  obtain conn closed0 where a: "a = (conn, closed0)" by (cases a)
  have "filter is_conn_close (performed (acceptConnection conn closed0 p))
        = filter is_conn_close (performed p)"
    by (simp add: acceptConnection_def handleConnection_def no_conn_close_session_loop
        del: session_loop.simps)
  with a Cons.IH [of "acceptConnection conn closed0 p"] show ?case by simp
qed

text \<open>
  C5 (every accepted connection is inserted into the listener's set of sessions, so that a
  later \<^verbatim>\<open>close()\<close> tries to close its socket). The code declares the set
  \<^verbatim>\<open>connections\<close> and sweeps it in \<^verbatim>\<open>close()\<close>, and never adds to it: accepting any
  connections leaves the set as it was, so after \<^verbatim>\<open>listen()\<close> the set is empty whatever has
  been accepted, and \<^verbatim>\<open>close()\<close> calls \<^verbatim>\<open>conn.close()\<close> on no connection at all.
\<close>

theorem accepted_connections_not_tracked:
  "connections (acceptConnections conns p) = connections p
   \<and> connections (acceptConnections conns (snd (listen (None :: unit deno_error option) proto_init))) = []
   \<and> filter is_conn_close (performed (snd (close lclose cclose
         (acceptConnections conns (snd (listen (None :: unit deno_error option) proto_init)))))) = []"
proof -
  let ?p1 = "acceptConnections conns (snd (listen (None :: unit deno_error option) proto_init))"
  have c: "connections ?p1 = []"
    by (simp add: listener_acceptConnections listen_def proto_init_def)
  have "filter is_conn_close (performed ?p1) = []"
    by (simp add: no_conn_close_acceptConnections listen_def proto_init_def)
  with close_sweep_empty [OF c, of lclose cclose] c show ?thesis
    by (simp add: listener_acceptConnections)
qed

lemma accepted_connection_is_served:
  "performed (acceptConnections [(c, False)] (snd (listen (None :: unit deno_error option) proto_init)))
     = [ListenTcp, LogStarted, ReadOpen True, ReadClosed False, ParseHeaders c]"
  by (simp add: acceptConnection_def handleConnection_def listen_def proto_init_def
      loop_condition_def)

lemma parses_loop_condition: "filter is_parse (loop_condition opn closed) = []"
  by (simp add: loop_condition_def)

lemma session_loop_left:
  "\<not> (opn \<and> \<not> closed) \<Longrightarrow>
     session_loop conn opn closed script = (loop_condition opn closed, LoopLeft)"
  by (cases script) auto

lemma session_loop_step:
  assumes "opn" "\<not> closed" "outcome t \<noteq> ParseFails e'" "\<forall>e. outcome t \<noteq> ParseFails e"
  shows "fst (session_loop conn opn closed (t # ts))
         = ReadOpen True # ReadClosed False # ParseHeaders conn
             # fst (session_loop conn (open_after t) (closed_after t) ts)"
  using assms by (cases "outcome t") (simp_all add: loop_condition_def case_prod_beta)

lemma guarded_session_loop: "guarded (fst (session_loop conn opn closed script))"
proof (induction script arbitrary: opn closed)
  case Nil
  show ?case by (cases opn; cases closed) (simp_all add: loop_condition_def)
next
  case (Cons t ts)
  show ?case
  proof (cases "opn \<and> \<not> closed")
    case False
    then show ?thesis
      by (cases opn; cases closed) (simp_all add: loop_condition_def)
  next
    case True
    show ?thesis
    proof (cases "outcome t")
      case (ParseFails e)
      with True show ?thesis by (simp add: loop_condition_def)
    next
      case (Header h)
      with True Cons.IH show ?thesis by (simp add: loop_condition_def case_prod_beta)
    next
      case NoHeader
      with True Cons.IH show ?thesis by (simp add: loop_condition_def case_prod_beta)
    qed
  qed
qed

lemma parses_bounded:
  "i < length script \<Longrightarrow> \<not> open_after (script ! i) \<or> closed_after (script ! i) \<Longrightarrow>
     length (filter is_parse (fst (session_loop conn opn closed script))) \<le> Suc i"
proof (induction script arbitrary: i opn closed)
  case Nil
  then show ?case by simp
next
  case (Cons t ts)
  show ?case
  proof (cases "opn \<and> \<not> closed")
    case False
    then show ?thesis
      by (simp add: session_loop_left parses_loop_condition del: session_loop.simps)
  next
    case True
    show ?thesis
    proof (cases "\<exists>e. outcome t = ParseFails e")
      case True
      with \<open>opn \<and> \<not> closed\<close> show ?thesis by (auto simp: loop_condition_def)
    next
      case False
      with True have step: "fst (session_loop conn opn closed (t # ts))
         = ReadOpen True # ReadClosed False # ParseHeaders conn
             # fst (session_loop conn (open_after t) (closed_after t) ts)"
        by (intro session_loop_step) auto
      show ?thesis
      proof (cases i)
        case 0
        with Cons.prems have "\<not> (open_after t \<and> \<not> closed_after t)" by auto
        then show ?thesis
          unfolding step by (simp add: session_loop_left parses_loop_condition del: session_loop.simps)
      next
        case (Suc j)
        with Cons.prems have "j < length ts"
          and "\<not> open_after (ts ! j) \<or> closed_after (ts ! j)" by simp_all
        from Cons.IH [OF this] Suc show ?thesis
          unfolding step by (simp del: session_loop.simps)
      qed
    qed
  qed
qed

text \<open>
  C8. The session loop reads the listener's \<^verbatim>\<open>open\<close> flag and the session's \<^verbatim>\<open>closed\<close> flag
  before every header parse, and a parse begins only when \<^verbatim>\<open>open\<close> was read true and
  \<^verbatim>\<open>closed\<close> was read false. Once an \<^verbatim>\<open>await\<close> comes back with \<^verbatim>\<open>open\<close> false or \<^verbatim>\<open>closed\<close>
  true, no further parse begins: if that is the \<open>i\<close>-th return (counting from 0), at most
  \<open>i + 1\<close> parses were ever begun.
\<close>

theorem session_loop_checks_flags:
  "guarded (fst (session_loop conn opn closed script))
   \<and> (\<forall>i. i < length script \<and> (\<not> open_after (script ! i) \<or> closed_after (script ! i)) \<longrightarrow>
         length (filter is_parse (fst (session_loop conn opn closed script))) \<le> Suc i)"
  using guarded_session_loop [of conn opn closed script] parses_bounded [of _ script conn opn closed]
  by blast

theorem session_loop_checks_flags_witness:
  "(let script = [\<lparr>outcome = Header (7::nat), open_after = True, closed_after = False\<rparr>,
                  \<lparr>outcome = (NoHeader :: (nat, unit) parsed), open_after = False, closed_after = False\<rparr>,
                  \<lparr>outcome = Header 9, open_after = True, closed_after = False\<rparr>]
    in fst (session_loop (1::nat) True False script)
         = [ReadOpen True, ReadClosed False, ParseHeaders 1,
            ReadOpen True, ReadClosed False, ParseHeaders 1,
            ReadOpen False]
       \<and> guarded (fst (session_loop (1::nat) True False script))
       \<and> (1::nat) < length script
       \<and> \<not> open_after (script ! 1)
       \<and> length (filter is_parse (fst (session_loop (1::nat) True False script))) \<le> Suc 1)"
proof -
  let ?s = "[\<lparr>outcome = Header (7::nat), open_after = True, closed_after = False\<rparr>,
             \<lparr>outcome = (NoHeader :: (nat, unit) parsed), open_after = False, closed_after = False\<rparr>,
             \<lparr>outcome = Header 9, open_after = True, closed_after = False\<rparr>]"
  have run: "fst (session_loop (1::nat) True False ?s)
         = [ReadOpen True, ReadClosed False, ParseHeaders 1,
            ReadOpen True, ReadClosed False, ParseHeaders 1,
            ReadOpen False]"
    by (simp add: loop_condition_def)
  have len: "(1::nat) < length ?s" by simp
  have bad: "\<not> open_after (?s ! 1)" by simp
  note t = session_loop_checks_flags [of "1::nat" True False ?s]
  from t have g: "guarded (fst (session_loop (1::nat) True False ?s))" by (rule conjunct1)
  from t len bad
  have n: "length (filter is_parse (fst (session_loop (1::nat) True False ?s))) \<le> Suc 1"
    by blast
  from run g len bad n show ?thesis unfolding Let_def by (intro conjI)
qed

section \<open>Properties of the orchestrator\<close>


lemma clock_act: "clock (act a w) = clock w"
  by (simp add: act_def)
























text \<open>
  A \<^verbatim>\<open>close()\<close> that throws on the spot, run on a concrete environment: the second and
  third listener are not closed, and the process exits with code 1.
\<close>

lemma stop_close_throws_example:
  "stop \<lparr>isDebug = False,
         listen_throws = (\<lambda>s. None),
         listen_result = (\<lambda>s. Resolves 1),
         close_throws = (\<lambda>s. if s = Rcon then Some ''EBADF'' else None),
         close_result = (\<lambda>s. Resolves 1),
         write_throws = (\<lambda>lvl msg. None),
         flushSync_throws = None,
         destroy_throws = None\<rparr> world_init =
     (Exited 1,
      \<lparr>isBooting = True, clock = 0,
       trace = [(0, SinkWrite WARN ''Stopping server.'' None), (0, CloseCall Rcon),
                (0, ConsoleError ''EBADF''), (0, ProcessExit 1)]\<rparr>)"
  by (simp add: stop_def stop_try_def stop_catch_def seq_def log_method_def levelMin_def
      await_all_def process_exit_def act_def world_init_def)






text \<open>
  C7. When the body of \<^verbatim>\<open>bootstrap()\<close> throws with \<^verbatim>\<open>isBooting\<close> already false (Running was
  reached), the handler writes one error line to the logger and does nothing else:
  \<^verbatim>\<open>stop()\<close> is not called (no \<^verbatim>\<open>close()\<close> on any listener), the process does not exit,
  and \<^verbatim>\<open>isBooting\<close> stays false.
\<close>

theorem running_error_only_logged:
  assumes "bootstrap_try env w = (Threw err, w')" and "\<not> isBooting w'"
  shows "snd (bootstrap env w)
           = w'\<lparr>trace := trace w'
                 @ [(clock w',
                     SinkWrite ERROR
                       ''An error occurred in Spile! Please report this to the developers.''
                       (Some err))]\<rparr>
       \<and> fst (bootstrap env w)
           = (case write_throws env ERROR
                     ''An error occurred in Spile! Please report this to the developers.'' of
                None \<Rightarrow> Returned
              | Some e \<Rightarrow> Threw e)
       \<and> \<not> isBooting (snd (bootstrap env w))"
  using assms
  by (simp add: bootstrap_def bootstrap_catch_def log_method_def levelMin_def act_def
      split: option.splits)

theorem running_error_only_logged_witness:
  "(let chatty = \<lparr>isDebug = True,
                   listen_throws = (\<lambda>s. None),
                   listen_result = (\<lambda>s. Resolves 1),
                   close_throws = (\<lambda>s. None),
                   close_result = (\<lambda>s. Resolves 1),
                   write_throws = (\<lambda>lvl msg. if lvl = INFO then Some ''EPIPE'' else None),
                   flushSync_throws = None,
                   destroy_throws = None\<rparr>;
        w' = \<lparr>isBooting = False, clock = 1,
              trace = [(0, ListenCall Rcon), (0, ListenCall Proto), (0, ListenCall Query),
                       (1, SinkWrite INFO ''We're ready to roll boss!'' None)]\<rparr>
    in bootstrap_try chatty world_init = (Threw ''EPIPE'', w')
       \<and> \<not> isBooting w'
       \<and> bootstrap chatty world_init =
           (Returned,
            \<lparr>isBooting = False, clock = 1,
             trace = [(0, ListenCall Rcon), (0, ListenCall Proto), (0, ListenCall Query),
                      (1, SinkWrite INFO ''We're ready to roll boss!'' None),
                      (1, SinkWrite ERROR
                            ''An error occurred in Spile! Please report this to the developers.''
                            (Some ''EPIPE''))]\<rparr>))"
proof -
  let ?chatty = "\<lparr>isDebug = True,
                   listen_throws = (\<lambda>s. None),
                   listen_result = (\<lambda>s. Resolves 1),
                   close_throws = (\<lambda>s. None),
                   close_result = (\<lambda>s. Resolves 1),
                   write_throws = (\<lambda>lvl msg. if lvl = INFO then Some ''EPIPE'' else None),
                   flushSync_throws = None,
                   destroy_throws = None\<rparr> :: string env"
  let ?w' = "\<lparr>isBooting = False, clock = 1,
              trace = [(0, ListenCall Rcon), (0, ListenCall Proto), (0, ListenCall Query),
                       (1, SinkWrite INFO ''We're ready to roll boss!'' None)]\<rparr> :: string world"
  have h1: "bootstrap_try ?chatty world_init = (Threw ''EPIPE'', ?w')"
    by (simp add: bootstrap_try_def seq_def log_method_def levelMin_def await_all_def
        promise_all_def act_def world_init_def)
  have h2: "\<not> isBooting ?w'" by simp
  note t = running_error_only_logged [OF h1 h2]
  from t have s: "snd (bootstrap ?chatty world_init)
      = \<lparr>isBooting = False, clock = 1,
             trace = [(0, ListenCall Rcon), (0, ListenCall Proto), (0, ListenCall Query),
                      (1, SinkWrite INFO ''We're ready to roll boss!'' None),
                      (1, SinkWrite ERROR
                            ''An error occurred in Spile! Please report this to the developers.''
                            (Some ''EPIPE''))]\<rparr>"
    by simp
  from t have f: "fst (bootstrap ?chatty world_init) = Returned"
    by simp
  from s f have run: "bootstrap ?chatty world_init =
           (Returned,
            \<lparr>isBooting = False, clock = 1,
             trace = [(0, ListenCall Rcon), (0, ListenCall Proto), (0, ListenCall Query),
                      (1, SinkWrite INFO ''We're ready to roll boss!'' None),
                      (1, SinkWrite ERROR
                            ''An error occurred in Spile! Please report this to the developers.''
                            (Some ''EPIPE''))]\<rparr>)"
    by (simp add: prod_eq_iff)
  from h1 h2 run show ?thesis unfolding Let_def by (intro conjI)
qed

end
